theory Spec2Isabelle
  imports Main "HOL-Library.Word"
begin

section \<open>JavaScript strings\<close>

text \<open>
  A JavaScript string is a sequence of 16-bit UTF-16 code units. The regular expression of
  \<^verbatim>\<open>ContactForm\<close> has no \<^verbatim>\<open>u\<close> flag, so it reads its input code unit by code unit.
  \<open>js\<close> turns an ASCII literal of the theory into such a string.
\<close>

type_synonym jschar = "16 word"
type_synonym jsstring = "jschar list"

definition js :: "string \<Rightarrow> jsstring" where
  "js s = map of_char s"

definition at_sign :: jschar where
  "at_sign = 0x40"

definition full_stop :: jschar where
  "full_stop = 0x2E"

text \<open>
  ECMAScript's LineTerminator code points: LF, CR, LINE SEPARATOR and PARAGRAPH SEPARATOR.
  Without the \<^verbatim>\<open>s\<close> flag the pattern character \<^verbatim>\<open>.\<close> matches every code unit but these.
\<close>

definition lineTerminator :: "jschar \<Rightarrow> bool" where
  "lineTerminator c = (c = 0x0A \<or> c = 0x0D \<or> c = 0x2028 \<or> c = 0x2029)"

section \<open>Regular expressions\<close>

text \<open>
  The pattern language that the source and the specification need: \<open>Dot\<close> is the pattern
  character \<^verbatim>\<open>.\<close>, \<open>Lit c\<close> a literal (or escaped) character, \<open>NoneOf cs\<close> a negated
  class \<^verbatim>\<open>[^...]\<close>. \<open>Plus\<close> is the quantifier \<^verbatim>\<open>+\<close>. \<open>Never\<close>, \<open>Empty\<close>, \<open>Alt\<close> and
  \<open>Star\<close> do not occur in a pattern of the source; the matcher needs them for the
  residual of a pattern after one code unit.
\<close>

datatype atom = Dot | Lit jschar | NoneOf "jschar list"

datatype regex =
    Never
  | Empty
  | Atom atom
  | Alt regex regex
  | Seq regex regex
  | Star regex
  | Plus regex

fun accepts :: "atom \<Rightarrow> jschar \<Rightarrow> bool" where
  "accepts Dot c = (\<not> lineTerminator c)"
| "accepts (Lit d) c = (c = d)"
| "accepts (NoneOf ds) c = (c \<notin> set ds)"

text \<open>\<open>nullable r\<close>: the pattern matches the empty string.\<close>

fun nullable :: "regex \<Rightarrow> bool" where
  "nullable Never = False"
| "nullable Empty = True"
| "nullable (Atom a) = False"
| "nullable (Alt r s) = (nullable r \<or> nullable s)"
| "nullable (Seq r s) = (nullable r \<and> nullable s)"
| "nullable (Star r) = True"
| "nullable (Plus r) = nullable r"

text \<open>\<open>residual c r\<close>: what is left of the pattern once it has consumed the code unit \<open>c\<close>.\<close>

fun residual :: "jschar \<Rightarrow> regex \<Rightarrow> regex" where
  "residual c Never = Never"
| "residual c Empty = Never"
| "residual c (Atom a) = (if accepts a c then Empty else Never)"
| "residual c (Alt r s) = Alt (residual c r) (residual c s)"
| "residual c (Seq r s) =
     (if nullable r then Alt (Seq (residual c r) s) (residual c s)
      else Seq (residual c r) s)"
| "residual c (Star r) = Seq (residual c r) (Star r)"
| "residual c (Plus r) = Seq (residual c r) (Star r)"

text \<open>\<open>matches r s\<close>: the pattern matches the whole of \<open>s\<close> (a pattern between \<^verbatim>\<open>^\<close> and \<^verbatim>\<open>$\<close>).\<close>

fun matches :: "regex \<Rightarrow> jsstring \<Rightarrow> bool" where
  "matches r [] = nullable r"
| "matches r (c # cs) = matches (residual c r) cs"

text \<open>\<open>matches_at r s\<close>: the pattern matches some prefix of \<open>s\<close> (a match starting at index 0).\<close>

fun matches_at :: "regex \<Rightarrow> jsstring \<Rightarrow> bool" where
  "matches_at r [] = nullable r"
| "matches_at r (c # cs) = (nullable r \<or> matches_at (residual c r) cs)"

text \<open>
  \<^verbatim>\<open>RegExp.prototype.test\<close> of a pattern without the \<^verbatim>\<open>g\<close> and \<^verbatim>\<open>y\<close> flags: it tries
  the start indices 0, 1, ... in turn and answers whether the pattern matches at one of them.
\<close>

fun test :: "regex \<Rightarrow> jsstring \<Rightarrow> bool" where
  "test r [] = matches_at r []"
| "test r (c # cs) = (matches_at r (c # cs) \<or> test r cs)"

section \<open>The contact form\<close>

text \<open>The pattern \<^verbatim>\<open>/.+@.+\..+/\<close> of line 268.\<close>

definition email_pattern :: regex where
  "email_pattern =
     Seq (Plus (Atom Dot)) (Seq (Atom (Lit at_sign))
       (Seq (Plus (Atom Dot)) (Seq (Atom (Lit full_stop)) (Plus (Atom Dot)))))"

definition emailOk :: "jsstring \<Rightarrow> bool" where
  "emailOk email = test email_pattern email"


text \<open>
  The specification's wording of the validation rule, kept apart from the pattern of the
  source: one or more characters that are neither \<^verbatim>\<open>.\<close> nor \<^verbatim>\<open>@\<close>, then \<^verbatim>\<open>@\<close>, then one or
  more characters, then \<^verbatim>\<open>.\<close>, then one or more characters, and the string consists of
  exactly that.
\<close>

definition spec_email_pattern :: regex where
  "spec_email_pattern =
     Seq (Plus (Atom (NoneOf [full_stop, at_sign]))) (Seq (Atom (Lit at_sign))
       (Seq (Plus (Atom (NoneOf []))) (Seq (Atom (Lit full_stop)) (Plus (Atom (NoneOf []))))))"

definition spec_email_shape :: "jsstring \<Rightarrow> bool" where
  "spec_email_shape email = matches spec_email_pattern email"

text \<open>
  The two pieces of component state of \<^verbatim>\<open>ContactForm\<close> (lines 266 and 267): the object
  \<^verbatim>\<open>state\<close> with its four string fields, and \<^verbatim>\<open>status\<close>.
\<close>

record fields =
  name :: jsstring
  email :: jsstring
  org :: jsstring
  message :: jsstring

datatype status = Idle | Sending | Success | Error

definition empty_fields :: fields where
  "empty_fields = \<lparr>name = [], email = [], org = [], message = []\<rparr>"

text \<open>
  Line 269. A JavaScript string is truthy exactly when it is not empty, so the
  \<^verbatim>\<open>&&\<close> chain is truthy exactly when all four operands hold. \<open>canSubmit\<close> is computed
  from \<^verbatim>\<open>state\<close> and \<^verbatim>\<open>status\<close> at every render and kept nowhere.
\<close>

definition canSubmit :: "fields \<Rightarrow> status \<Rightarrow> bool" where
  "canSubmit st s =
     (name st \<noteq> [] \<and> emailOk (email st) \<and> message st \<noteq> [] \<and> s \<noteq> Sending)"

text \<open>
  The component together with what is under way around it: \<open>inflight\<close> holds, for every
  call of \<^verbatim>\<open>onSubmit\<close> that is suspended at its \<^verbatim>\<open>await\<close>, the \<^verbatim>\<open>state\<close> object that the
  call closed over (oldest first: the timers all wait 800 ms); \<open>console\<close> is what
  \<^verbatim>\<open>console.log\<close> has printed. Each handler runs to its next suspension point on the state
  of the latest render.
\<close>

record ContactForm =
  state :: fields
  status :: status
  inflight :: "fields list"
  console :: "fields list"

definition ContactForm_init :: ContactForm where
  "ContactForm_init = \<lparr>state = empty_fields, status = Idle, inflight = [], console = []\<rparr>"

text \<open>
  How the awaited submission operation ends. The mock of the source (a timer) always
  completes; \<open>Fault\<close> is an exception raised inside the \<^verbatim>\<open>try\<close> block, which a real
  transport put in place of the mock can raise.
\<close>

datatype outcome = Completed | Fault

text \<open>\<^verbatim>\<open>onSubmit\<close>, lines 272 to 277: from the event up to the \<^verbatim>\<open>await\<close>.\<close>

definition onSubmit :: "ContactForm \<Rightarrow> ContactForm" where
  "onSubmit c =
     (if \<not> canSubmit (state c) (status c) then c
      else c\<lparr>status := Sending, inflight := inflight c @ [state c]\<rparr>)"

text \<open>
  \<^verbatim>\<open>onSubmit\<close>, lines 277 to 283: the oldest suspended call goes on after its
  \<^verbatim>\<open>await\<close>. When the operation completed it logs the state it closed over, sets the
  status to success and replaces the fields by empty ones; on a fault the \<^verbatim>\<open>catch\<close>
  clause sets the status to error and touches nothing else. With no suspended call there
  is nothing to go on.
\<close>

definition onSubmit_resume :: "outcome \<Rightarrow> ContactForm \<Rightarrow> ContactForm" where
  "onSubmit_resume out c =
     (case inflight c of
        [] \<Rightarrow> c
      | sent # rest \<Rightarrow>
          (case out of
             Completed \<Rightarrow>
               c\<lparr>console := console c @ [sent], status := Success,
                 state := empty_fields, inflight := rest\<rparr>
           | Fault \<Rightarrow> c\<lparr>status := Error, inflight := rest\<rparr>))"

text \<open>The four \<^verbatim>\<open>onChange\<close> handlers, lines 293, 301, 314 and 322.\<close>

datatype field = Name | Email | Org | Message

fun onChange :: "field \<Rightarrow> jsstring \<Rightarrow> ContactForm \<Rightarrow> ContactForm" where
  "onChange Name v c = c\<lparr>state := (state c)\<lparr>name := v\<rparr>\<rparr>"
| "onChange Email v c = c\<lparr>state := (state c)\<lparr>email := v\<rparr>\<rparr>"
| "onChange Org v c = c\<lparr>state := (state c)\<lparr>org := v\<rparr>\<rparr>"
| "onChange Message v c = c\<lparr>state := (state c)\<lparr>message := v\<rparr>\<rparr>"

text \<open>What can happen to the form, and a run of such events.\<close>

datatype event = Change field jsstring | Submit | Settle outcome

fun step :: "event \<Rightarrow> ContactForm \<Rightarrow> ContactForm" where
  "step (Change f v) c = onChange f v c"
| "step Submit c = onSubmit c"
| "step (Settle out) c = onSubmit_resume out c"

fun run :: "ContactForm \<Rightarrow> event list \<Rightarrow> ContactForm" where
  "run c [] = c"
| "run c (e # es) = run (step e c) es"

text \<open>At most one submission is under way, and exactly while the status is sending.\<close>

definition one_inflight :: "ContactForm \<Rightarrow> bool" where
  "one_inflight c =
     (length (inflight c) \<le> 1 \<and> (status c = Sending) = (inflight c \<noteq> []))"

section \<open>Hash navigation\<close>

text \<open>The three refs of \<^verbatim>\<open>App\<close>, lines 13 to 15, each for one section of the page.\<close>

datatype ref = homeRef | aboutRef | contactRef

text \<open>
  The object \<^verbatim>\<open>map\<close> of lines 24 to 28, read at the key \<^verbatim>\<open>hash\<close>. For a key that is
  none of the three, the lookup gives \<^verbatim>\<open>undefined\<close> or a property inherited from
  \<^verbatim>\<open>Object.prototype\<close>, which has no \<^verbatim>\<open>current\<close>: the guard of line 30 fails on both,
  and both are \<open>None\<close> here.
\<close>

definition map_hash :: "jsstring \<Rightarrow> ref option" where
  "map_hash h =
     (if h = js ''#home'' then Some homeRef
      else if h = js ''#about'' then Some aboutRef
      else if h = js ''#contact'' then Some contactRef
      else None)"

text \<open>
  The effect of lines 23 to 33, as the list of \<^verbatim>\<open>scrollIntoView\<close> requests it issues for
  a value of \<^verbatim>\<open>hash\<close>. \<open>current\<close> tells which refs hold an element.
\<close>

definition scroll_effect :: "(ref \<Rightarrow> bool) \<Rightarrow> jsstring \<Rightarrow> ref list" where
  "scroll_effect current h =
     (case map_hash h of
        None \<Rightarrow> []
      | Some target \<Rightarrow> if current target then [target] else [])"

text \<open>
  Line 12: the initial value of \<^verbatim>\<open>hash\<close>. \<open>window\<close> is \<^verbatim>\<open>window.location.hash\<close> where
  a window exists, and \<open>None\<close> where \<^verbatim>\<open>typeof window\<close> is \<^verbatim>\<open>'undefined'\<close>.
\<close>

definition initial_hash :: "jsstring option \<Rightarrow> jsstring" where
  "initial_hash window = (case window of Some h \<Rightarrow> h | None \<Rightarrow> js ''#home'')"

text \<open>
  Mounting \<^verbatim>\<open>App\<close> in a page whose fragment is \<open>loc\<close>: the state is initialised and
  both effects run once. The result is the value of \<^verbatim>\<open>hash\<close> and the scroll requests issued.
\<close>

definition App_mount :: "(ref \<Rightarrow> bool) \<Rightarrow> jsstring \<Rightarrow> jsstring \<times> ref list" where
  "App_mount current loc =
     (let h = initial_hash (Some loc) in (h, scroll_effect current h))"

text \<open>
  \<^verbatim>\<open>onHash\<close>, line 18, on a \<^verbatim>\<open>hashchange\<close> notification with the page's fragment being
  \<open>loc\<close> and the state being \<open>hash\<close>: the empty string is falsy, so \<^verbatim>\<open>||\<close> gives
  \<^verbatim>\<open>"#home"\<close> for it. The effect of line 23 depends on \<^verbatim>\<open>[hash]\<close>: it runs again only
  when the value set differs from the one before.
\<close>

definition onHash_value :: "jsstring \<Rightarrow> jsstring" where
  "onHash_value loc = (if loc = [] then js ''#home'' else loc)"

definition onHash :: "(ref \<Rightarrow> bool) \<Rightarrow> jsstring \<Rightarrow> jsstring \<Rightarrow> jsstring \<times> ref list" where
  "onHash current loc hash =
     (let h = onHash_value loc
      in if h = hash then (hash, []) else (h, scroll_effect current h))"

text \<open>In \<^verbatim>\<open>App\<close>, \<^verbatim>\<open>Main\<close> renders the three sections always, so every ref holds an element.\<close>

definition all_mounted :: "ref \<Rightarrow> bool" where
  "all_mounted s = True"

section \<open>The language of a pattern\<close>

text \<open>
  What a pattern denotes, as a set of strings. It is the yardstick for the matcher above:
  \<open>matches\<close>, \<open>matches_at\<close> and \<open>test\<close> are shown below to decide membership of the
  whole string, of a prefix and of a substring.
\<close>

definition conc :: "jsstring set \<Rightarrow> jsstring set \<Rightarrow> jsstring set" where
  "conc A B = {u @ v | u v. u \<in> A \<and> v \<in> B}"

inductive_set star :: "jsstring set \<Rightarrow> jsstring set" for A :: "jsstring set" where
  star_nil: "[] \<in> star A"
| star_app: "u \<in> A \<Longrightarrow> v \<in> star A \<Longrightarrow> u @ v \<in> star A"

fun lang :: "regex \<Rightarrow> jsstring set" where
  "lang Never = {}"
| "lang Empty = {[]}"
| "lang (Atom a) = {[c] | c. accepts a c}"
| "lang (Alt r s) = lang r \<union> lang s"
| "lang (Seq r s) = conc (lang r) (lang s)"
| "lang (Star r) = star (lang r)"
| "lang (Plus r) = conc (lang r) (star (lang r))"

text \<open>\<open>dot_run w\<close>: a non-empty run of code units none of which is a line terminator.\<close>

definition dot_run :: "jsstring \<Rightarrow> bool" where
  "dot_run w = (w \<noteq> [] \<and> (\<forall>x \<in> set w. \<not> lineTerminator x))"

section \<open>Example states\<close>

text \<open>
  The form filled in with the values of the specification's examples, the same form with
  its submission under way, and the edits that lead to it from the initial state.
\<close>

definition jane :: ContactForm where
  "jane = ContactForm_init\<lparr>state :=
     \<lparr>name = js ''Jane Doe'', email = js ''jane@hospital.org'', org = [],
      message = js ''Need help''\<rparr>\<rparr>"

definition sending_jane :: ContactForm where
  "sending_jane = onSubmit jane"

definition jane_edits :: "event list" where
  "jane_edits = [Change Name (js ''Jane Doe''), Change Email (js ''jane@hospital.org''),
     Change Message (js ''Need help'')]"

section \<open>The matcher decides the language\<close>

lemma nil_in_conc: "[] \<in> conc A B \<longleftrightarrow> [] \<in> A \<and> [] \<in> B"
  by (auto simp: conc_def)

lemma cons_in_conc:
  "c # w \<in> conc A B \<longleftrightarrow>
     (\<exists>u v. w = u @ v \<and> c # u \<in> A \<and> v \<in> B) \<or> ([] \<in> A \<and> c # w \<in> B)"
proof
  assume "c # w \<in> conc A B"
  then obtain x y where xy: "c # w = x @ y" "x \<in> A" "y \<in> B"
    by (auto simp: conc_def)
  show "(\<exists>u v. w = u @ v \<and> c # u \<in> A \<and> v \<in> B) \<or> ([] \<in> A \<and> c # w \<in> B)"
  proof (cases x)
    case Nil
    with xy show ?thesis by simp
  next
    case (Cons d x')
    with xy have "w = x' @ y" "c # x' \<in> A" by simp_all
    with xy(3) show ?thesis by blast
  qed
next
  assume "(\<exists>u v. w = u @ v \<and> c # u \<in> A \<and> v \<in> B) \<or> ([] \<in> A \<and> c # w \<in> B)"
  then show "c # w \<in> conc A B"
  proof
    assume "\<exists>u v. w = u @ v \<and> c # u \<in> A \<and> v \<in> B"
    then obtain u v where "w = u @ v" "c # u \<in> A" "v \<in> B" by blast
    then have "c # w = (c # u) @ v" by simp
    with \<open>c # u \<in> A\<close> \<open>v \<in> B\<close> show ?thesis unfolding conc_def by blast
  next
    assume "[] \<in> A \<and> c # w \<in> B"
    then have "c # w = [] @ (c # w)" "[] \<in> A" "c # w \<in> B" by simp_all
    then show ?thesis unfolding conc_def by blast
  qed
qed

lemma star_step:
  assumes "w \<in> star A" "w = c # t"
  shows "\<exists>u v. t = u @ v \<and> c # u \<in> A \<and> v \<in> star A"
  using assms
proof (induction arbitrary: t rule: star.induct)
  case star_nil
  then show ?case by simp
next
  case (star_app u v)
  show ?case
  proof (cases u)
    case Nil
    with star_app show ?thesis by simp
  next
    case (Cons d u')
    with star_app.prems have "t = u' @ v" "d = c" by simp_all
    with Cons star_app.hyps show ?thesis by blast
  qed
qed

lemma cons_in_star:
  "c # w \<in> star A \<longleftrightarrow> (\<exists>u v. w = u @ v \<and> c # u \<in> A \<and> v \<in> star A)"
proof
  assume "c # w \<in> star A"
  then show "\<exists>u v. w = u @ v \<and> c # u \<in> A \<and> v \<in> star A"
    by (rule star_step) simp
next
  assume "\<exists>u v. w = u @ v \<and> c # u \<in> A \<and> v \<in> star A"
  then obtain u v where "w = u @ v" "c # u \<in> A" "v \<in> star A" by blast
  then show "c # w \<in> star A"
    using star_app [of "c # u" A v] by simp
qed

lemma nullable_lang: "nullable r \<longleftrightarrow> [] \<in> lang r"
  by (induction r) (auto simp: nil_in_conc intro: star_nil)

lemma in_conc: "w \<in> conc A B \<longleftrightarrow> (\<exists>u v. w = u @ v \<and> u \<in> A \<and> v \<in> B)"
  by (auto simp: conc_def)

lemma lang_residual: "w \<in> lang (residual c r) \<longleftrightarrow> c # w \<in> lang r"
proof (induction r arbitrary: w)
  case (Seq r s)
  have "w \<in> conc (lang (residual c r)) (lang s) \<longleftrightarrow>
        (\<exists>u v. w = u @ v \<and> c # u \<in> lang r \<and> v \<in> lang s)"
    by (simp add: in_conc Seq.IH)
  then show ?case
    by (simp add: cons_in_conc nullable_lang Seq.IH)
next
  case (Star r)
  have "w \<in> conc (lang (residual c r)) (star (lang r)) \<longleftrightarrow>
        (\<exists>u v. w = u @ v \<and> c # u \<in> lang r \<and> v \<in> star (lang r))"
    by (simp add: in_conc Star.IH)
  then show ?case
    by (simp add: cons_in_star)
next
  case (Plus r)
  have "w \<in> conc (lang (residual c r)) (star (lang r)) \<longleftrightarrow>
        (\<exists>u v. w = u @ v \<and> c # u \<in> lang r \<and> v \<in> star (lang r))"
    by (simp add: in_conc Plus.IH)
  then show ?case
    by (auto simp: cons_in_conc cons_in_star)
qed auto

lemma matches_lang: "matches r s \<longleftrightarrow> s \<in> lang r"
  by (induction s arbitrary: r) (simp_all add: nullable_lang lang_residual)

lemma matches_at_lang: "matches_at r s \<longleftrightarrow> (\<exists>u v. s = u @ v \<and> u \<in> lang r)"
proof (induction s arbitrary: r)
  case Nil
  then show ?case by (simp add: nullable_lang)
next
  case (Cons c cs)
  have "(\<exists>u v. c # cs = u @ v \<and> u \<in> lang r) \<longleftrightarrow>
        [] \<in> lang r \<or> (\<exists>u v. cs = u @ v \<and> c # u \<in> lang r)"
    by (auto simp: Cons_eq_append_conv)
  then show ?case
    by (simp add: Cons.IH nullable_lang lang_residual)
qed

lemma test_lang: "test r s \<longleftrightarrow> (\<exists>p u q. s = p @ u @ q \<and> u \<in> lang r)"
proof (induction s)
  case Nil
  then show ?case by (simp add: nullable_lang)
next
  case (Cons c cs)
  have "(\<exists>p u q. c # cs = p @ u @ q \<and> u \<in> lang r) \<longleftrightarrow>
        (\<exists>u q. c # cs = u @ q \<and> u \<in> lang r) \<or> (\<exists>p u q. cs = p @ u @ q \<and> u \<in> lang r)"
    (is "?L \<longleftrightarrow> ?A \<or> ?B")
  proof
    assume ?L
    then obtain p u q where h: "c # cs = p @ u @ q" "u \<in> lang r" by blast
    show "?A \<or> ?B"
    proof (cases p)
      case Nil
      with h show ?thesis by auto
    next
      case (Cons d p')
      with h have "cs = p' @ u @ q" by simp
      with h(2) show ?thesis by blast
    qed
  next
    assume "?A \<or> ?B"
    then show ?L
    proof
      assume ?A
      then obtain u q where "c # cs = [] @ u @ q" "u \<in> lang r" by auto
      then show ?L by blast
    next
      assume ?B
      then obtain p u q where "c # cs = (c # p) @ u @ q" "u \<in> lang r" by auto
      then show ?L by blast
    qed
  qed
  then show ?case
    using matches_at_lang [of r "c # cs"] by (simp add: Cons.IH)
qed

lemma star_dot: "w \<in> star (lang (Atom Dot)) \<longleftrightarrow> (\<forall>x \<in> set w. \<not> lineTerminator x)"
proof
  assume "w \<in> star (lang (Atom Dot))"
  then show "\<forall>x \<in> set w. \<not> lineTerminator x"
    by (induction rule: star.induct) auto
next
  assume "\<forall>x \<in> set w. \<not> lineTerminator x"
  then show "w \<in> star (lang (Atom Dot))"
  proof (induction w)
    case Nil
    show ?case by (rule star_nil)
  next
    case (Cons c cs)
    then have "[c] \<in> lang (Atom Dot)" "cs \<in> star (lang (Atom Dot))" by simp_all
    then have "[c] @ cs \<in> star (lang (Atom Dot))" by (rule star_app)
    then show ?case by simp
  qed
qed

lemma lang_plus_dot: "w \<in> lang (Plus (Atom Dot)) \<longleftrightarrow> dot_run w"
proof (cases w)
  case Nil
  then show ?thesis by (simp add: dot_run_def nil_in_conc)
next
  case (Cons c cs)
  have "c # cs \<in> lang (Plus (Atom Dot)) \<longleftrightarrow>
        c # [] \<in> lang (Atom Dot) \<and> cs \<in> star (lang (Atom Dot))"
    unfolding lang.simps(7) cons_in_conc by auto
  with Cons show ?thesis
    unfolding star_dot by (simp add: dot_run_def)
qed

lemma in_lang_Seq: "w \<in> lang (Seq r s) \<longleftrightarrow> (\<exists>u v. w = u @ v \<and> u \<in> lang r \<and> v \<in> lang s)"
  by (simp add: in_conc)

lemma in_lang_Lit: "w \<in> lang (Atom (Lit d)) \<longleftrightarrow> w = [d]"
  by simp

lemma lang_email_pattern:
  "w \<in> lang email_pattern \<longleftrightarrow>
     (\<exists>a b c. w = a @ at_sign # b @ full_stop # c \<and> dot_run a \<and> dot_run b \<and> dot_run c)"
  (is "?L \<longleftrightarrow> ?R")
proof
  assume ?L
  then obtain a r1 x r2 b r3 y c where
    "w = a @ r1" "dot_run a" "r1 = x @ r2" "x = [at_sign]" "r2 = b @ r3" "dot_run b"
    "r3 = y @ c" "y = [full_stop]" "dot_run c"
    unfolding email_pattern_def in_lang_Seq in_lang_Lit lang_plus_dot by blast
  then have "w = a @ at_sign # b @ full_stop # c \<and> dot_run a \<and> dot_run b \<and> dot_run c"
    by simp
  then show ?R by blast
next
  assume ?R
  then obtain a b c where h: "w = a @ at_sign # b @ full_stop # c" "dot_run a" "dot_run b" "dot_run c"
    by blast
  have "[full_stop] @ c \<in> lang (Seq (Atom (Lit full_stop)) (Plus (Atom Dot)))"
    unfolding in_lang_Seq in_lang_Lit lang_plus_dot using h(4) by blast
  with h(3) have "b @ [full_stop] @ c \<in>
      lang (Seq (Plus (Atom Dot)) (Seq (Atom (Lit full_stop)) (Plus (Atom Dot))))"
    unfolding in_lang_Seq [of _ "Plus (Atom Dot)"] lang_plus_dot by blast
  then have "[at_sign] @ b @ [full_stop] @ c \<in>
      lang (Seq (Atom (Lit at_sign)) (Seq (Plus (Atom Dot)) (Seq (Atom (Lit full_stop)) (Plus (Atom Dot)))))"
    unfolding in_lang_Seq [of _ "Atom (Lit at_sign)"] in_lang_Lit by blast
  with h(2) have "a @ [at_sign] @ b @ [full_stop] @ c \<in> lang email_pattern"
    unfolding email_pattern_def in_lang_Seq [of _ "Plus (Atom Dot)"] lang_plus_dot by blast
  with h(1) show ?L by simp
qed

lemma emailOk_iff:
  "emailOk s \<longleftrightarrow>
     (\<exists>p a b c q. s = p @ a @ at_sign # b @ full_stop # c @ q \<and>
        dot_run a \<and> dot_run b \<and> dot_run c)"
  (is "_ \<longleftrightarrow> ?R")
proof
  assume "emailOk s"
  then obtain p u q a b c where
    "s = p @ u @ q" "u = a @ at_sign # b @ full_stop # c" "dot_run a" "dot_run b" "dot_run c"
    unfolding emailOk_def test_lang lang_email_pattern by blast
  then have "s = p @ a @ at_sign # b @ full_stop # c @ q \<and> dot_run a \<and> dot_run b \<and> dot_run c"
    by simp
  then show ?R by blast
next
  assume ?R
  then obtain p a b c q where
    h: "s = p @ a @ at_sign # b @ full_stop # c @ q" "dot_run a" "dot_run b" "dot_run c"
    by blast
  then have "s = p @ (a @ at_sign # b @ full_stop # c) @ q" by simp
  moreover have "a @ at_sign # b @ full_stop # c \<in> lang email_pattern"
    unfolding lang_email_pattern using h by blast
  ultimately show "emailOk s"
    unfolding emailOk_def test_lang by blast
qed

section \<open>Evaluation and helper facts\<close>

lemmas js_eval = js_def at_sign_def full_stop_def lineTerminator_def

lemma emailOk_jane: "emailOk (js ''jane@hospital.org'')"
  by (simp add: emailOk_def email_pattern_def js_eval)

lemma canSubmit_jane: "canSubmit (state jane) (status jane)"
  by (simp add: canSubmit_def jane_def ContactForm_init_def emailOk_jane) (simp add: js_def)

lemma onSubmit_eligible:
  "canSubmit (state c) (status c) \<Longrightarrow>
     onSubmit c = c\<lparr>status := Sending, inflight := inflight c @ [state c]\<rparr>"
  by (simp add: onSubmit_def)

lemma onSubmit_resume_Completed:
  "inflight c \<noteq> [] \<Longrightarrow>
     status (onSubmit_resume Completed c) = Success \<and>
     state (onSubmit_resume Completed c) = empty_fields"
  by (cases "inflight c") (simp_all add: onSubmit_resume_def)

lemma onSubmit_resume_Fault:
  "inflight c \<noteq> [] \<Longrightarrow>
     onSubmit_resume Fault c = c\<lparr>status := Error, inflight := tl (inflight c)\<rparr>"
  by (cases "inflight c") (simp_all add: onSubmit_resume_def)

lemma status_jane: "status jane = Idle"
  by (simp add: jane_def ContactForm_init_def)

lemma sending_jane_eq:
  "sending_jane = jane\<lparr>status := Sending, inflight := [state jane]\<rparr>"
  unfolding sending_jane_def
  using onSubmit_eligible [OF canSubmit_jane] by (simp add: jane_def ContactForm_init_def)

lemma run_append: "run c (xs @ ys) = run (run c xs) ys"
  by (induction xs arbitrary: c) simp_all

lemma jane_reached: "run ContactForm_init jane_edits = jane"
  by (simp add: jane_edits_def jane_def ContactForm_init_def empty_fields_def)

lemma init_one_inflight: "one_inflight ContactForm_init"
  by (simp add: one_inflight_def ContactForm_init_def)

lemma onChange_rest:
  "status (onChange f v c) = status c \<and> inflight (onChange f v c) = inflight c \<and>
   console (onChange f v c) = console c"
  by (cases f) simp_all

lemma onSubmit_one_inflight:
  assumes "one_inflight c"
  shows "one_inflight (onSubmit c)"
proof (cases "canSubmit (state c) (status c)")
  case True
  then have "status c \<noteq> Sending" by (simp add: canSubmit_def)
  with assms have "inflight c = []" by (simp add: one_inflight_def)
  with True show ?thesis by (simp add: onSubmit_def one_inflight_def)
next
  case False
  with assms show ?thesis by (simp add: onSubmit_def)
qed

lemma onSubmit_resume_one_inflight:
  assumes "one_inflight c"
  shows "one_inflight (onSubmit_resume out c)"
proof (cases "inflight c")
  case Nil
  with assms show ?thesis by (simp add: onSubmit_resume_def)
next
  case (Cons sent rest)
  with assms have "rest = []" by (simp add: one_inflight_def)
  with Cons show ?thesis
    by (cases out) (simp_all add: onSubmit_resume_def one_inflight_def)
qed

lemma step_one_inflight: "one_inflight c \<Longrightarrow> one_inflight (step e c)"
proof (cases e)
  case (Change f v)
  assume "one_inflight c"
  with Change show ?thesis by (simp add: one_inflight_def onChange_rest)
next
  case Submit
  assume "one_inflight c"
  with Submit show ?thesis by (simp add: onSubmit_one_inflight)
next
  case (Settle out)
  assume "one_inflight c"
  with Settle show ?thesis by (simp add: onSubmit_resume_one_inflight)
qed

lemma run_one_inflight: "one_inflight c \<Longrightarrow> one_inflight (run c es)"
  by (induction es arbitrary: c) (simp_all add: step_one_inflight)

lemma onSubmit_status:
  "status (onSubmit c) = status c \<or> (status c \<noteq> Sending \<and> status (onSubmit c) = Sending)"
  by (simp add: onSubmit_def canSubmit_def)

lemma onSubmit_resume_status:
  assumes "one_inflight c"
  shows "(status (onSubmit_resume out c) = status c \<and> status c \<noteq> Sending) \<or>
    (status c = Sending \<and> out = Completed \<and> status (onSubmit_resume out c) = Success) \<or>
    (status c = Sending \<and> out = Fault \<and> status (onSubmit_resume out c) = Error)"
proof (cases "inflight c")
  case Nil
  with assms show ?thesis by (simp add: onSubmit_resume_def one_inflight_def)
next
  case (Cons sent rest)
  with assms have "status c = Sending" by (simp add: one_inflight_def)
  with Cons show ?thesis by (cases out) (simp_all add: onSubmit_resume_def)
qed

lemma run_edits:
  "status (run c (map (case_prod Change) edits)) = status c \<and>
   inflight (run c (map (case_prod Change) edits)) = inflight c"
proof (induction edits arbitrary: c)
  case Nil
  show ?case by simp
next
  case (Cons fv edits)
  obtain f v where "fv = (f, v)" by (cases fv)
  with Cons [of "onChange f v c"] show ?case by (simp add: onChange_rest)
qed

lemma map_hash_known:
  "map_hash (js ''#home'') = Some homeRef" "map_hash (js ''#about'') = Some aboutRef"
  "map_hash (js ''#contact'') = Some contactRef"
  by (simp_all add: map_hash_def js_def)

lemma map_hash_unknown:
  "h \<notin> {js ''#home'', js ''#about'', js ''#contact''} \<Longrightarrow> map_hash h = None"
  by (simp add: map_hash_def)

lemma map_hash_Some:
  "map_hash h = Some r \<Longrightarrow> h \<in> {js ''#home'', js ''#about'', js ''#contact''}"
  by (simp add: map_hash_def split: if_splits)

lemma onHash_value_cases:
  "onHash_value [] = js ''#home''" "loc \<noteq> [] \<Longrightarrow> onHash_value loc = loc"
  by (simp_all add: onHash_value_def)

lemma scroll_effect_mounted:
  "map_hash h = Some r \<Longrightarrow> current r \<Longrightarrow> scroll_effect current h = [r]"
  by (simp add: scroll_effect_def)

lemma scroll_effect_None: "map_hash h = None \<Longrightarrow> scroll_effect current h = []"
  by (simp add: scroll_effect_def)

lemma js_nonempty: "js (c # cs) \<noteq> []"
  by (simp add: js_def)

lemma js_neq:
  "js ''#about'' \<noteq> js ''#home''" "js ''#foo'' \<noteq> js ''#home''" "js ''#foo'' \<noteq> js ''#about''"
  "js ''#foo'' \<noteq> js ''#contact''" "js ''#home'' \<noteq> js ''#about''"
  by (simp_all add: js_def)

section \<open>The claims\<close>

subsection \<open>Contact form: eligibility and validation\<close>

text \<open>
  Claim C1. Eligibility is false exactly when the name is empty, or the message is empty,
  or the email fails the check \<open>emailOk\<close>, or the status is sending, and true for every
  other combination; the organization field has no part in it.
\<close>

theorem canSubmit_false_iff:
  "(\<not> canSubmit st s \<longleftrightarrow>
      name st = [] \<or> message st = [] \<or> \<not> emailOk (email st) \<or> s = Sending) \<and>
   canSubmit (st\<lparr>org := v\<rparr>) s = canSubmit st s"
  by (auto simp: canSubmit_def)

text \<open>
  At the example form: eligible when idle, not eligible while sending, and not eligible
  with the email \<^verbatim>\<open>a@b\<close>.
\<close>

theorem canSubmit_false_iff_witness:
  "canSubmit (state jane) Idle \<and> \<not> canSubmit (state jane) Sending \<and>
   \<not> canSubmit ((state jane)\<lparr>email := js ''a@b''\<rparr>) Idle"
proof -
  have a: "emailOk (email (state jane))"
    using emailOk_jane by (simp add: jane_def)
  have b: "name (state jane) \<noteq> []" "message (state jane) \<noteq> []"
    by (simp_all add: jane_def js_def)
  have c: "\<not> emailOk (js ''a@b'')"
    by (simp add: emailOk_def email_pattern_def js_eval)
  show ?thesis
    using a b c canSubmit_false_iff [of "state jane" Idle]
      canSubmit_false_iff [of "state jane" Sending]
      canSubmit_false_iff [of "(state jane)\<lparr>email := js ''a@b''\<rparr>" Idle]
    by simp
qed

text \<open>
  Claim C2, as amended. The pattern of the source is not anchored and its \<^verbatim>\<open>.\<close> matches
  every code unit but a line terminator, \<^verbatim>\<open>.\<close> and \<^verbatim>\<open>@\<close> included. So the validator accepts a
  string exactly when the string contains, somewhere, a non-empty run of such code units,
  then \<^verbatim>\<open>@\<close>, then a non-empty run, then \<^verbatim>\<open>.\<close>, then a non-empty run. In particular
  \<^verbatim>\<open>a@b.c\<close> is accepted, and \<^verbatim>\<open>a@b\<close>, \<^verbatim>\<open>abc\<close> and \<^verbatim>\<open>a@.c\<close> are rejected.
\<close>

theorem emailOk_shape:
  "(emailOk s \<longleftrightarrow>
     (\<exists>p a b c q. s = p @ a @ at_sign # b @ full_stop # c @ q \<and>
        dot_run a \<and> dot_run b \<and> dot_run c)) \<and>
   emailOk (js ''a@b.c'') \<and> \<not> emailOk (js ''a@b'') \<and> \<not> emailOk (js ''abc'') \<and>
   \<not> emailOk (js ''a@.c'')"
proof -
  have "emailOk (js ''a@b.c'')" "\<not> emailOk (js ''a@b'')" "\<not> emailOk (js ''abc'')"
    "\<not> emailOk (js ''a@.c'')"
    by (simp_all add: emailOk_def email_pattern_def js_eval)
  then show ?thesis
    using emailOk_iff [of s] by blast
qed

text \<open>
  A string with text around the address is accepted, by the decomposition
  \<^verbatim>\<open>"x " + "jane" + "@" + "hospital" + "." + "org" + "!"\<close>.
\<close>

theorem emailOk_shape_witness: "emailOk (js ''x jane@hospital.org!'')"
proof -
  have "js ''x jane@hospital.org!'' =
      js ''x '' @ js ''jane'' @ at_sign # js ''hospital'' @ full_stop # js ''org'' @ js ''!''"
    by (simp add: js_eval)
  moreover have "dot_run (js ''jane'')" "dot_run (js ''hospital'')" "dot_run (js ''org'')"
    by (simp_all add: dot_run_def js_eval)
  ultimately have "\<exists>p a b c q.
      js ''x jane@hospital.org!'' = p @ a @ at_sign # b @ full_stop # c @ q \<and>
      dot_run a \<and> dot_run b \<and> dot_run c"
    by blast
  then show ?thesis
    using emailOk_shape [of "js ''x jane@hospital.org!''"] by blast
qed

text \<open>
  Claim C2 as it was stated fails. \<^verbatim>\<open>a@.c\<close> is rejected: after the \<^verbatim>\<open>@\<close> only two
  code units are left, and the pattern needs at least three. \<^verbatim>\<open>.@b.c\<close> is accepted
  although its local part is a \<^verbatim>\<open>.\<close>: the specification's shape rejects it, whether it is
  read as the whole string or searched for inside the string. And \<^verbatim>\<open>a@\<close>, a line feed,
  \<^verbatim>\<open>.c\<close> has the specification's shape and is rejected, the line feed being no match
  for \<^verbatim>\<open>.\<close> in the pattern.
\<close>

theorem emailOk_shape_counterexample:
  "\<not> emailOk (js ''a@.c'') \<and>
   emailOk (js ''.@b.c'') \<and> \<not> spec_email_shape (js ''.@b.c'') \<and>
   \<not> test spec_email_pattern (js ''.@b.c'') \<and>
   spec_email_shape (js ''a@'' @ 0x0A # js ''.c'') \<and>
   \<not> emailOk (js ''a@'' @ 0x0A # js ''.c'')"
  by (simp add: emailOk_def email_pattern_def spec_email_shape_def spec_email_pattern_def js_eval)

subsection \<open>Contact form: the submission cycle\<close>

text \<open>
  Claim C3. From every eligible form state, submit sets the status to sending and leaves
  the fields alone; when the operation then completes without fault the status is success
  and all four fields are the empty string. Eligibility excludes the status sending, so
  the cycle starts from idle (or from the success or error left by an earlier cycle).
\<close>

theorem submit_success:
  assumes "canSubmit (state c) (status c)"
  shows "status (onSubmit c) = Sending \<and> state (onSubmit c) = state c \<and>
    status (onSubmit_resume Completed (onSubmit c)) = Success \<and>
    name (state (onSubmit_resume Completed (onSubmit c))) = [] \<and>
    email (state (onSubmit_resume Completed (onSubmit c))) = [] \<and>
    org (state (onSubmit_resume Completed (onSubmit c))) = [] \<and>
    message (state (onSubmit_resume Completed (onSubmit c))) = []"
proof -
  from assms have sub: "onSubmit c = c\<lparr>status := Sending, inflight := inflight c @ [state c]\<rparr>"
    by (rule onSubmit_eligible)
  then have "inflight (onSubmit c) \<noteq> []" by simp
  then have "status (onSubmit_resume Completed (onSubmit c)) = Success"
    and "state (onSubmit_resume Completed (onSubmit c)) = empty_fields"
    using onSubmit_resume_Completed by blast+
  with sub show ?thesis by (simp add: empty_fields_def)
qed

text \<open>
  The example of the specification: Jane Doe, \<^verbatim>\<open>jane@hospital.org\<close>, "Need help", idle.
\<close>

theorem submit_success_witness:
  "status jane = Idle \<and> status (onSubmit jane) = Sending \<and>
   status (onSubmit_resume Completed (onSubmit jane)) = Success \<and>
   state (onSubmit_resume Completed (onSubmit jane)) =
     \<lparr>name = [], email = [], org = [], message = []\<rparr>"
  using submit_success [OF canSubmit_jane] status_jane by simp

text \<open>
  Claim C4. From every eligible form state, submit sets the status to sending, and when
  the operation then raises a fault the status is error and the four fields are what they
  were before the submit. The error transition itself, from any state \<open>d\<close>, changes
  neither the fields nor the console.
\<close>

theorem submit_fault:
  assumes "canSubmit (state c) (status c)"
  shows "status (onSubmit c) = Sending \<and> state (onSubmit c) = state c \<and>
    status (onSubmit_resume Fault (onSubmit c)) = Error \<and>
    name (state (onSubmit_resume Fault (onSubmit c))) = name (state c) \<and>
    email (state (onSubmit_resume Fault (onSubmit c))) = email (state c) \<and>
    org (state (onSubmit_resume Fault (onSubmit c))) = org (state c) \<and>
    message (state (onSubmit_resume Fault (onSubmit c))) = message (state c) \<and>
    state (onSubmit_resume Fault d) = state d \<and>
    console (onSubmit_resume Fault d) = console d"
proof -
  from assms have sub: "onSubmit c = c\<lparr>status := Sending, inflight := inflight c @ [state c]\<rparr>"
    by (rule onSubmit_eligible)
  then have "inflight (onSubmit c) \<noteq> []" by simp
  then have "onSubmit_resume Fault (onSubmit c) =
      (onSubmit c)\<lparr>status := Error, inflight := tl (inflight (onSubmit c))\<rparr>"
    by (rule onSubmit_resume_Fault)
  moreover have "state (onSubmit_resume Fault d) = state d \<and>
      console (onSubmit_resume Fault d) = console d"
    by (cases "inflight d") (simp_all add: onSubmit_resume_def)
  ultimately show ?thesis using sub by simp
qed

text \<open>
  The same example with a fault.
\<close>

theorem submit_fault_witness:
  "status jane = Idle \<and> status (onSubmit jane) = Sending \<and>
   status (onSubmit_resume Fault (onSubmit jane)) = Error \<and>
   state (onSubmit_resume Fault (onSubmit jane)) =
     \<lparr>name = js ''Jane Doe'', email = js ''jane@hospital.org'', org = [],
      message = js ''Need help''\<rparr>"
proof -
  have "state jane = \<lparr>name = js ''Jane Doe'', email = js ''jane@hospital.org'', org = [],
      message = js ''Need help''\<rparr>"
    by (simp add: jane_def)
  then show ?thesis
    using submit_fault [OF canSubmit_jane, of jane] status_jane by simp
qed

text \<open>
  Claim C5. Submit on a state that is not eligible, and so on every state whose status is
  sending, gives back the very same state: fields, status, console and the list of
  suspended calls are unchanged, so no operation is started. A second submit right after a
  first one changes nothing more.
\<close>

theorem submit_ineligible_noop:
  "(\<not> canSubmit (state c) (status c) \<longrightarrow> onSubmit c = c) \<and>
   (status c = Sending \<longrightarrow> onSubmit c = c) \<and>
   onSubmit (onSubmit c) = onSubmit c"
  by (simp add: onSubmit_def canSubmit_def)

text \<open>
  With the example's submission under way a further submit changes nothing and the one
  suspended call stays the only one; on the empty initial form submit changes nothing.
\<close>

theorem submit_ineligible_noop_witness:
  "status sending_jane = Sending \<and> onSubmit sending_jane = sending_jane \<and>
   inflight (onSubmit sending_jane) = [state jane] \<and>
   \<not> canSubmit (state ContactForm_init) (status ContactForm_init) \<and>
   onSubmit ContactForm_init = ContactForm_init"
proof -
  have a: "status sending_jane = Sending" "inflight sending_jane = [state jane]"
    by (simp_all add: sending_jane_eq)
  have b: "\<not> canSubmit (state ContactForm_init) (status ContactForm_init)"
    by (simp add: canSubmit_def ContactForm_init_def empty_fields_def)
  show ?thesis
    using a b submit_ineligible_noop [of sending_jane] submit_ineligible_noop [of ContactForm_init]
    by simp
qed

text \<open>
  Claim C8. After any sequence of events from the initial state (field edits, submits,
  and the operation completing or failing), one more event either leaves the status as it
  is, or is a submit that takes idle, success or error to sending, or is the operation
  completing, which takes sending to success, or the operation failing, which takes
  sending to error. So idle is never entered again, and success and error are left only
  by a submit, towards sending.
\<close>

theorem status_transitions:
  assumes "c = run ContactForm_init evs" and "c' = step e c"
  shows "status c' = status c \<or>
    (e = Submit \<and> status c \<in> {Idle, Success, Error} \<and> status c' = Sending) \<or>
    (e = Settle Completed \<and> status c = Sending \<and> status c' = Success) \<or>
    (e = Settle Fault \<and> status c = Sending \<and> status c' = Error)"
proof -
  have inv: "one_inflight c"
    unfolding assms(1) using init_one_inflight by (rule run_one_inflight)
  show ?thesis
  proof (cases e)
    case (Change f v)
    with assms(2) show ?thesis by (simp add: onChange_rest)
  next
    case Submit
    have "status c \<noteq> Sending \<Longrightarrow> status c \<in> {Idle, Success, Error}"
      by (cases "status c") simp_all
    with Submit assms(2) onSubmit_status [of c] show ?thesis by auto
  next
    case (Settle out)
    with assms(2) onSubmit_resume_status [OF inv, of out] show ?thesis by auto
  qed
qed

text \<open>
  On the example: the edits leave the status idle, submit takes it to sending, a fault to
  error.
\<close>

theorem status_transitions_witness:
  "status (run ContactForm_init jane_edits) = Idle \<and>
   status (step Submit (run ContactForm_init jane_edits)) = Sending \<and>
   status (run ContactForm_init (jane_edits @ [Submit])) = Sending \<and>
   status (step (Settle Fault) (run ContactForm_init (jane_edits @ [Submit]))) = Error"
proof -
  have a: "run ContactForm_init (jane_edits @ [Submit]) = sending_jane"
    by (simp add: run_append jane_reached sending_jane_def)
  have b: "status sending_jane = Sending" "inflight sending_jane = [state jane]"
    by (simp_all add: sending_jane_eq)
  have c: "status (onSubmit_resume Fault sending_jane) = Error"
    by (simp add: onSubmit_resume_def b)
  show ?thesis
    using status_transitions [where evs = jane_edits and e = Submit, OF refl refl]
      status_transitions [where evs = "jane_edits @ [Submit]" and e = "Settle Fault", OF refl refl]
    by (simp add: a b c jane_reached status_jane sending_jane_def [symmetric])
qed

text \<open>
  Claim C9. A change handler sets its own field to the new value and leaves the other
  three fields, the status, the suspended calls and the console as they were. Eligibility
  after the change is \<open>canSubmit\<close> of the new fields and the old status: it is a function
  of these two values and no component of the state.
\<close>

theorem onChange_frame:
  "name (state (onChange Name v c)) = v \<and>
   email (state (onChange Name v c)) = email (state c) \<and>
   org (state (onChange Name v c)) = org (state c) \<and>
   message (state (onChange Name v c)) = message (state c) \<and>
   name (state (onChange Email v c)) = name (state c) \<and>
   email (state (onChange Email v c)) = v \<and>
   org (state (onChange Email v c)) = org (state c) \<and>
   message (state (onChange Email v c)) = message (state c) \<and>
   name (state (onChange Org v c)) = name (state c) \<and>
   email (state (onChange Org v c)) = email (state c) \<and>
   org (state (onChange Org v c)) = v \<and>
   message (state (onChange Org v c)) = message (state c) \<and>
   name (state (onChange Message v c)) = name (state c) \<and>
   email (state (onChange Message v c)) = email (state c) \<and>
   org (state (onChange Message v c)) = org (state c) \<and>
   message (state (onChange Message v c)) = v \<and>
   status (onChange f v c) = status c \<and>
   inflight (onChange f v c) = inflight c \<and>
   console (onChange f v c) = console c \<and>
   canSubmit (state (onChange f v c)) (status (onChange f v c)) =
     (name (state (onChange f v c)) \<noteq> [] \<and> emailOk (email (state (onChange f v c))) \<and>
      message (state (onChange f v c)) \<noteq> [] \<and> status c \<noteq> Sending)"
  by (cases f) (simp_all add: canSubmit_def)

text \<open>
  Claim C10. From every eligible state, after submit and any list of field edits the
  status is still sending, and when the operation then completes the status is success and
  all four fields are empty, whatever the edits wrote.
\<close>

theorem success_discards_edits:
  assumes "canSubmit (state c) (status c)"
  shows "status (run c (Submit # map (case_prod Change) edits)) = Sending \<and>
    status (run c (Submit # map (case_prod Change) edits @ [Settle Completed])) = Success \<and>
    state (run c (Submit # map (case_prod Change) edits @ [Settle Completed])) =
      \<lparr>name = [], email = [], org = [], message = []\<rparr>"
proof -
  let ?d = "run (onSubmit c) (map (case_prod Change) edits)"
  from assms have "status (onSubmit c) = Sending" "inflight (onSubmit c) \<noteq> []"
    by (simp_all add: onSubmit_eligible)
  then have d: "status ?d = Sending" "inflight ?d \<noteq> []"
    by (simp_all add: run_edits)
  have "run c (Submit # map (case_prod Change) edits @ [Settle Completed]) =
      onSubmit_resume Completed ?d"
    using run_append [of "onSubmit c" "map (case_prod Change) edits" "[Settle Completed]"]
    by simp
  with d onSubmit_resume_Completed [OF d(2)] show ?thesis
    by (simp add: empty_fields_def)
qed

text \<open>
  While the example is being sent the name is changed to Bob and the organization to
  Ward 3; both are in the fields before the operation completes and gone after it.
\<close>

theorem success_discards_edits_witness:
  "name (state (run jane [Submit, Change Name (js ''Bob''), Change Org (js ''Ward 3'')])) =
     js ''Bob'' \<and>
   org (state (run jane [Submit, Change Name (js ''Bob''), Change Org (js ''Ward 3'')])) =
     js ''Ward 3'' \<and>
   status (run jane [Submit, Change Name (js ''Bob''), Change Org (js ''Ward 3'')]) = Sending \<and>
   state (run jane [Submit, Change Name (js ''Bob''), Change Org (js ''Ward 3''),
     Settle Completed]) = \<lparr>name = [], email = [], org = [], message = []\<rparr>"
  using success_discards_edits [OF canSubmit_jane, of "[(Name, js ''Bob''), (Org, js ''Ward 3'')]"]
  by (simp add: sending_jane_def [symmetric] sending_jane_eq)

subsection \<open>Hash navigation\<close>

text \<open>
  Claim C6, as amended. Every ref holds an element. At startup a fragment among
  \<^verbatim>\<open>#home\<close>, \<^verbatim>\<open>#about\<close>, \<^verbatim>\<open>#contact\<close> is resolved to its section and exactly one scroll
  request is issued. On a notification a fragment among these three or the empty one is
  resolved to a known section (the empty one to home), and exactly one scroll request is
  issued when the resolved fragment differs from the stored one, none when it is the same.
  For every other fragment no scroll request is issued, at startup and on a notification.
\<close>

theorem nav_scroll_requests:
  assumes "\<forall>r. current r"
  shows "(loc \<in> {js ''#home'', js ''#about'', js ''#contact''} \<longrightarrow>
      (\<exists>r. map_hash loc = Some r \<and> App_mount current loc = (loc, [r]))) \<and>
    (loc \<in> {[], js ''#home'', js ''#about'', js ''#contact''} \<longrightarrow>
      (\<exists>r. map_hash (onHash_value loc) = Some r \<and>
        onHash current loc hash =
          (onHash_value loc, if onHash_value loc = hash then [] else [r]))) \<and>
    onHash_value [] = js ''#home'' \<and>
    (loc \<notin> {[], js ''#home'', js ''#about'', js ''#contact''} \<longrightarrow>
      snd (App_mount current loc) = [] \<and> snd (onHash current loc hash) = [])"
proof (intro conjI impI)
  assume "loc \<in> {js ''#home'', js ''#about'', js ''#contact''}"
  then obtain r where "map_hash loc = Some r"
    using map_hash_known by auto
  with assms have "map_hash loc = Some r \<and> App_mount current loc = (loc, [r])"
    by (simp add: App_mount_def initial_hash_def scroll_effect_mounted)
  then show "\<exists>r. map_hash loc = Some r \<and> App_mount current loc = (loc, [r])" ..
next
  assume "loc \<in> {[], js ''#home'', js ''#about'', js ''#contact''}"
  then have "onHash_value loc \<in> {js ''#home'', js ''#about'', js ''#contact''}"
    by (auto simp: onHash_value_def)
  then obtain r where r: "map_hash (onHash_value loc) = Some r"
    using map_hash_known by auto
  with assms have "scroll_effect current (onHash_value loc) = [r]"
    by (simp add: scroll_effect_mounted)
  with r have "map_hash (onHash_value loc) = Some r \<and>
      onHash current loc hash = (onHash_value loc, if onHash_value loc = hash then [] else [r])"
    by (simp add: onHash_def Let_def)
  then show "\<exists>r. map_hash (onHash_value loc) = Some r \<and>
      onHash current loc hash = (onHash_value loc, if onHash_value loc = hash then [] else [r])" ..
next
  show "onHash_value [] = js ''#home''" by (rule onHash_value_cases)
next
  assume out: "loc \<notin> {[], js ''#home'', js ''#about'', js ''#contact''}"
  then have "map_hash loc = None" by (simp add: map_hash_unknown)
  then show "snd (App_mount current loc) = []"
    by (simp add: App_mount_def initial_hash_def scroll_effect_None)
next
  assume out: "loc \<notin> {[], js ''#home'', js ''#about'', js ''#contact''}"
  then have "onHash_value loc = loc" by (simp add: onHash_value_def)
  moreover from out have "map_hash loc = None" by (simp add: map_hash_unknown)
  ultimately show "snd (onHash current loc hash) = []"
    by (simp add: onHash_def Let_def scroll_effect_None)
qed

text \<open>
  Startup at \<^verbatim>\<open>#about\<close>; notifications with the empty fragment, with \<^verbatim>\<open>#contact\<close> and with
  \<^verbatim>\<open>#foo\<close>.
\<close>

theorem nav_scroll_requests_witness:
  "App_mount all_mounted (js ''#about'') = (js ''#about'', [aboutRef]) \<and>
   onHash all_mounted [] (js ''#about'') = (js ''#home'', [homeRef]) \<and>
   onHash all_mounted (js ''#contact'') (js ''#home'') = (js ''#contact'', [contactRef]) \<and>
   snd (onHash all_mounted (js ''#foo'') (js ''#home'')) = []"
proof -
  have m: "\<forall>r. all_mounted r" by (simp add: all_mounted_def)
  have e: "js ''#foo'' \<noteq> []" "js ''#contact'' \<noteq> []" "js ''#contact'' \<noteq> js ''#home''"
    by (simp_all add: js_def)
  show ?thesis
    using nav_scroll_requests [OF m, of "js ''#about''" "js ''#home''"]
      nav_scroll_requests [OF m, of "[]" "js ''#about''"]
      nav_scroll_requests [OF m, of "js ''#contact''" "js ''#home''"]
      nav_scroll_requests [OF m, of "js ''#foo''" "js ''#home''"]
    by (simp add: map_hash_known onHash_value_cases e js_neq)
qed

text \<open>
  Claim C6 as it was stated fails at the empty fragment. At startup line 12 stores the
  empty string as it is (only \<^verbatim>\<open>onHash\<close> replaces it by \<^verbatim>\<open>#home\<close>), the lookup finds
  nothing and no scroll request is issued. On a notification with the empty fragment while
  \<^verbatim>\<open>#home\<close> is stored, the value set is the one already there, the effect does not run
  again and no scroll request is issued.
\<close>

theorem nav_scroll_requests_counterexample:
  "snd (App_mount all_mounted []) = [] \<and> snd (onHash all_mounted [] (js ''#home'')) = []"
  by (simp add: App_mount_def initial_hash_def scroll_effect_def map_hash_def onHash_def
      onHash_value_def js_def Let_def)

text \<open>
  Claim C7, as amended. The stored fragment is the string the last notification resolved
  (at startup the page's fragment), known or not. An unrecognized fragment causes no scroll
  request, and every scroll request issued is for the section of the stored fragment, which
  is then a known one. No path of the controller raises an exception, so its functions have
  no error result.
\<close>

theorem unknown_fragment_ignored:
  "fst (onHash current loc hash) = onHash_value loc \<and>
   (loc \<noteq> [] \<longrightarrow> fst (App_mount current loc) = loc) \<and>
   (map_hash (onHash_value loc) = None \<longrightarrow> snd (onHash current loc hash) = []) \<and>
   (loc \<noteq> [] \<and> map_hash loc = None \<longrightarrow> snd (App_mount current loc) = []) \<and>
   (r \<in> set (snd (onHash current loc hash)) \<longrightarrow>
      map_hash (fst (onHash current loc hash)) = Some r) \<and>
   (r \<in> set (snd (App_mount current loc)) \<longrightarrow>
      map_hash (fst (App_mount current loc)) = Some r)"
  by (auto simp: onHash_def App_mount_def initial_hash_def scroll_effect_def Let_def
      split: option.splits if_splits)

text \<open>
  The unknown fragment \<^verbatim>\<open>#foo\<close> is stored and scrolls nothing; \<^verbatim>\<open>#about\<close> scrolls to its
  section.
\<close>

theorem unknown_fragment_ignored_witness:
  "onHash all_mounted (js ''#foo'') (js ''#home'') = (js ''#foo'', []) \<and>
   App_mount all_mounted (js ''#foo'') = (js ''#foo'', []) \<and>
   onHash all_mounted (js ''#about'') (js ''#home'') = (js ''#about'', [aboutRef]) \<and>
   map_hash (js ''#about'') = Some aboutRef"
proof -
  have e: "js ''#foo'' \<noteq> []" "map_hash (js ''#foo'') = None"
    by (simp_all add: map_hash_def js_def)
  have f: "onHash all_mounted (js ''#about'') (js ''#home'') = (js ''#about'', [aboutRef])"
    by (simp add: onHash_def onHash_value_def scroll_effect_def map_hash_known all_mounted_def
        js_neq js_nonempty)
  show ?thesis
    using unknown_fragment_ignored [of all_mounted "js ''#foo''" "js ''#home''" aboutRef]
      unknown_fragment_ignored [of all_mounted "js ''#about''" "js ''#home''" aboutRef] e f
    by (simp add: onHash_value_cases prod_eq_iff map_hash_known)
qed

text \<open>
  Claim C7 as it was stated fails: after a notification with \<^verbatim>\<open>#foo\<close> the stored fragment
  is \<^verbatim>\<open>#foo\<close>, and after startup without a fragment it is the empty string; neither is a
  key of the three sections.
\<close>

theorem unknown_fragment_ignored_counterexample:
  "fst (onHash all_mounted (js ''#foo'') (js ''#home'')) = js ''#foo'' \<and>
   map_hash (js ''#foo'') = None \<and>
   fst (App_mount all_mounted []) = [] \<and> map_hash [] = None"
  by (simp add: App_mount_def initial_hash_def map_hash_def onHash_def onHash_value_def js_def
      Let_def)

end
